theory Spec2Isabelle
  imports Main "HOL-Library.AList"
begin

section \<open>The Router of \<^verbatim>\<open>router.py\<close>: data model\<close>

text \<open>
  The module \<^verbatim>\<open>router.py\<close> defines one class, \<^verbatim>\<open>Router\<close>, with three attributes that
  matter for the connection life cycle:
  \<^item> \<^verbatim>\<open>self.connections\<close>, a dict from server name to an established \<^verbatim>\<open>MCPConnection\<close>;
  \<^item> \<^verbatim>\<open>self.servers\<close>, a dict from server name to a \<^verbatim>\<open>Server\<close>;
  \<^item> \<^verbatim>\<open>self.matcher\<close>, a \<^verbatim>\<open>ToolMatcher\<close>.

  Python dicts keep insertion order, and \<^verbatim>\<open>d[k] = v\<close> replaces the value of an existing
  key in place and appends a new key at the end. An association list with
  \<^const>\<open>AList.update\<close> and \<^const>\<open>map_of\<close> does exactly that.

  Exceptions are values: every function that can raise returns a sum, with \<open>Inl\<close> for the
  exception. \<open>ValueError\<close> carries the message built by the source. \<open>AttributeError\<close> is
  what \<^verbatim>\<open>.get\<close> and \<^verbatim>\<open>.items\<close> raise on a JSON value that is not an object. \<open>Foreign\<close>
  stands for an exception raised inside a collaborator (\<^verbatim>\<open>MCPConnection\<close>,
  \<^verbatim>\<open>ToolMatcher\<close>, \<^verbatim>\<open>ServerConfig\<close>, \<^verbatim>\<open>json.load\<close>), tagged by a string.
\<close>

datatype error = ValueError string | AttributeError | Foreign string

text \<open>
  A \<^verbatim>\<open>MCPConnection\<close> object is identified by the order in which the Router constructed
  it: the first object is 0, the next one 1, and so on. Two objects are the same object
  exactly when their numbers are equal. Instances are truthy, as Python objects without
  \<^verbatim>\<open>__bool__\<close> and \<^verbatim>\<open>__len__\<close> are, so \<^verbatim>\<open>if not connection\<close> tests for \<^verbatim>\<open>None\<close>.
\<close>

type_synonym conn = nat

text \<open>
  What the Router does to the outside world is recorded as a list of events, oldest first.
  The first group is produced by the constructor, the second by \<^verbatim>\<open>call_tool\<close> and
  \<^verbatim>\<open>aclose\<close>.
\<close>

datatype event =
    ConfigProbed string
  | ConfigRead string
  | ServerParsed string
  | DotenvLoaded
  | MatcherCreated
  | EnvRead string
  | DataPathProbed string
  | ClientSetUp
  | DataLoaded
  | Created conn string
  | ConnectCalled conn
  | ToolCalled conn string
  | CloseCalled conn
  | CloseFinished conn "error option"

record 'cfg server =
  name :: string
  config :: 'cfg

text \<open>
  The Router object, together with the two pieces of the world that the claims observe:
  the event list and the number of \<^verbatim>\<open>MCPConnection\<close> objects constructed so far.
\<close>

record ('cfg, 'm) router =
  connections :: "(string \<times> conn) list"
  servers :: "(string \<times> 'cfg server) list"
  matcher :: 'm
  events :: "event list"
  allocated :: nat

text \<open>
  The behaviour of the remote side, which the Router cannot see in advance. Each function
  receives the events so far, so that an answer may depend on the whole history.
  \<^item> \<open>connect_result h c\<close>: \<open>None\<close> when \<^verbatim>\<open>await c.connect()\<close> returns, \<open>Some e\<close> when it
    raises \<open>e\<close>;
  \<^item> \<open>tool_result h c t p\<close>: the outcome of \<^verbatim>\<open>await c.call_tool(t, p)\<close>;
  \<^item> \<open>close_plan h c\<close>: how \<^verbatim>\<open>c.aclose()\<close> runs once started: the number of times the
    coroutine suspends before it ends, and \<open>Some e\<close> when it ends by raising \<open>e\<close>. A
    suspension gives control back to the event loop until the loop has run the handles
    that were ready before it; a close that waits longer is one that suspends more often.
\<close>

record ('v, 'r) peer =
  connect_result :: "event list \<Rightarrow> conn \<Rightarrow> error option"
  tool_result :: "event list \<Rightarrow> conn \<Rightarrow> string \<Rightarrow> (string \<times> 'v) list \<Rightarrow> error + 'r"
  close_plan :: "event list \<Rightarrow> conn \<Rightarrow> nat \<times> error option"

section \<open>\<^verbatim>\<open>Router.call_tool\<close>\<close>

definition quoted :: "string \<Rightarrow> string" where
  "quoted s = CHR 0x27 # s @ [CHR 0x27]"

definition not_defined_message :: "string \<Rightarrow> string" where
  "not_defined_message server_name =
     ''Server '' @ quoted server_name @ '' is not defined in the configuration.''"

text \<open>\<^verbatim>\<open>params or {}\<close>: \<^verbatim>\<open>None\<close> and the empty dict both give the empty dict.\<close>

definition or_empty :: "(string \<times> 'v) list option \<Rightarrow> (string \<times> 'v) list" where
  "or_empty params = (case params of None \<Rightarrow> [] | Some d \<Rightarrow> if d = [] then [] else d)"

text \<open>
  Line 126, \<^verbatim>\<open>result = await connection.call_tool(tool_name, params or {})\<close>, in two
  halves: the call is issued, and after the suspension its outcome arrives.
\<close>

definition issue_call :: "conn \<Rightarrow> string \<Rightarrow> ('cfg, 'm) router \<Rightarrow> ('cfg, 'm) router" where
  "issue_call connection tool_name s =
     s\<lparr>events := events s @ [ToolCalled connection tool_name]\<rparr>"

definition invoke ::
  "('v, 'r) peer \<Rightarrow> conn \<Rightarrow> string \<Rightarrow> (string \<times> 'v) list option \<Rightarrow> ('cfg, 'm) router
     \<Rightarrow> (error + 'r) \<times> ('cfg, 'm) router" where
  "invoke w connection tool_name params s =
     (let s' = issue_call connection tool_name s
      in (tool_result w (events s') connection tool_name (or_empty params), s'))"

text \<open>
  Lines 120 and 122: \<^verbatim>\<open>connection = MCPConnection(server_config)\<close> constructs a new
  object, and \<^verbatim>\<open>connection.connect()\<close> is called on it.
\<close>

definition begin_connect :: "string \<Rightarrow> ('cfg, 'm) router \<Rightarrow> conn \<times> ('cfg, 'm) router" where
  "begin_connect server_name s =
     (let connection = allocated s
      in (connection,
          s\<lparr>allocated := Suc (allocated s),
            events := events s @ [Created connection server_name, ConnectCalled connection]\<rparr>))"

text \<open>Line 124: \<^verbatim>\<open>self.connections[server_name] = connection\<close>.\<close>

definition store :: "string \<Rightarrow> conn \<Rightarrow> ('cfg, 'm) router \<Rightarrow> ('cfg, 'm) router" where
  "store server_name connection s =
     s\<lparr>connections := AList.update server_name connection (connections s)\<rparr>"

text \<open>
  \<^verbatim>\<open>call_tool\<close> when no other coroutine runs between its suspension points: each
  \<^verbatim>\<open>await\<close> is completed before anything else touches the Router.
\<close>

definition call_tool ::
  "('v, 'r) peer \<Rightarrow> string \<Rightarrow> string \<Rightarrow> (string \<times> 'v) list option \<Rightarrow> ('cfg, 'm) router
     \<Rightarrow> (error + 'r) \<times> ('cfg, 'm) router" where
  "call_tool w server_name tool_name params s =
     (case map_of (connections s) server_name of
        Some connection \<Rightarrow> invoke w connection tool_name params s
      | None \<Rightarrow>
          (case map_of (servers s) server_name of
             None \<Rightarrow> (Inl (ValueError (not_defined_message server_name)), s)
           | Some server_config \<Rightarrow>
               (case begin_connect server_name s of
                  (connection, s1) \<Rightarrow>
                    (case connect_result w (events s1) connection of
                       Some e \<Rightarrow> (Inl e, s1)
                     | None \<Rightarrow>
                         invoke w connection tool_name params
                           (store server_name connection s1)))))"

text \<open>A caller that issues one \<^verbatim>\<open>call_tool\<close> after the other, awaiting each.\<close>

fun run_calls ::
  "('v, 'r) peer \<Rightarrow> (string \<times> string \<times> (string \<times> 'v) list option) list
     \<Rightarrow> ('cfg, 'm) router \<Rightarrow> (error + 'r) list \<times> ('cfg, 'm) router" where
  "run_calls w [] s = ([], s)"
| "run_calls w ((server_name, tool_name, params) # calls) s =
     (case call_tool w server_name tool_name params s of
        (r, s1) \<Rightarrow> (case run_calls w calls s1 of (rs, s2) \<Rightarrow> (r # rs, s2)))"

subsection \<open>Reading the event list\<close>

definition created_for :: "string \<Rightarrow> event list \<Rightarrow> conn list" where
  "created_for server_name evs =
     List.map_filter
       (\<lambda>e. case e of Created c n \<Rightarrow> if n = server_name then Some c else None | _ \<Rightarrow> None) evs"

definition connect_calls :: "event list \<Rightarrow> conn list" where
  "connect_calls evs =
     List.map_filter (\<lambda>e. case e of ConnectCalled c \<Rightarrow> Some c | _ \<Rightarrow> None) evs"

definition close_calls :: "event list \<Rightarrow> conn list" where
  "close_calls evs =
     List.map_filter (\<lambda>e. case e of CloseCalled c \<Rightarrow> Some c | _ \<Rightarrow> None) evs"

definition closes_finished :: "event list \<Rightarrow> (conn \<times> error option) list" where
  "closes_finished evs =
     List.map_filter (\<lambda>e. case e of CloseFinished c r \<Rightarrow> Some (c, r) | _ \<Rightarrow> None) evs"

text \<open>The events that happened between an earlier state and a later one.\<close>

definition since :: "('cfg, 'm) router \<Rightarrow> ('cfg, 'm) router \<Rightarrow> event list" where
  "since s s' = drop (length (events s)) (events s')"

text \<open>
  The pool of a Router that was built by the constructor and used through \<^verbatim>\<open>call_tool\<close>
  holds each name once and each connection object once, and only objects that have been
  constructed.
\<close>

definition pool_ok :: "('cfg, 'm) router \<Rightarrow> bool" where
  "pool_ok s \<longleftrightarrow>
     distinct (map fst (connections s)) \<and> distinct (map snd (connections s)) \<and>
     list_all (\<lambda>c. c < allocated s) (map snd (connections s))"

section \<open>\<^verbatim>\<open>call_tool\<close> as a coroutine\<close>

text \<open>
  \<^verbatim>\<open>call_tool\<close> has two suspension points: \<^verbatim>\<open>await connection.connect()\<close> (line 122)
  and \<^verbatim>\<open>await connection.call_tool(...)\<close> (line 126). Both do I/O with the remote server,
  so the event loop may run another coroutine while one is suspended there. Between two
  suspension points the code runs without interruption. A coroutine is therefore at one
  of four places, and a step runs it from one place to the next.
\<close>

datatype ('v, 'r) coro =
    Start string string "(string \<times> 'v) list option"
  | AtConnect conn string string "(string \<times> 'v) list option"
  | AtCall conn string "(string \<times> 'v) list option"
  | Returned "error + 'r"

fun step ::
  "('v, 'r) peer \<Rightarrow> ('v, 'r) coro \<Rightarrow> ('cfg, 'm) router \<Rightarrow> ('v, 'r) coro \<times> ('cfg, 'm) router" where
  "step w (Start server_name tool_name params) s =
     (case map_of (connections s) server_name of
        Some connection \<Rightarrow>
          (AtCall connection tool_name params, issue_call connection tool_name s)
      | None \<Rightarrow>
          (case map_of (servers s) server_name of
             None \<Rightarrow> (Returned (Inl (ValueError (not_defined_message server_name))), s)
           | Some server_config \<Rightarrow>
               (case begin_connect server_name s of
                  (connection, s1) \<Rightarrow> (AtConnect connection server_name tool_name params, s1))))"
| "step w (AtConnect connection server_name tool_name params) s =
     (case connect_result w (events s) connection of
        Some e \<Rightarrow> (Returned (Inl e), s)
      | None \<Rightarrow>
          (AtCall connection tool_name params,
           issue_call connection tool_name (store server_name connection s)))"
| "step w (AtCall connection tool_name params) s =
     (Returned (tool_result w (events s) connection tool_name (or_empty params)), s)"
| "step w (Returned r) s = (Returned r, s)"

text \<open>
  Two coroutines on one Router. The schedule says which of the two runs its next step:
  \<open>True\<close> for the first, \<open>False\<close> for the second.
\<close>

fun interleave ::
  "('v, 'r) peer \<Rightarrow> bool list \<Rightarrow> ('v, 'r) coro \<times> ('v, 'r) coro \<times> ('cfg, 'm) router
     \<Rightarrow> ('v, 'r) coro \<times> ('v, 'r) coro \<times> ('cfg, 'm) router" where
  "interleave w [] k = k"
| "interleave w (first # sched) (t1, t2, s) =
     (if first
      then (case step w t1 s of (t1', s') \<Rightarrow> interleave w sched (t1', t2, s'))
      else (case step w t2 s of (t2', s') \<Rightarrow> interleave w sched (t1, t2', s')))"

text \<open>One coroutine run alone for a number of steps.\<close>

fun steps ::
  "('v, 'r) peer \<Rightarrow> nat \<Rightarrow> ('v, 'r) coro \<Rightarrow> ('cfg, 'm) router \<Rightarrow> ('v, 'r) coro \<times> ('cfg, 'm) router" where
  "steps w 0 t s = (t, s)"
| "steps w (Suc k) t s = (case step w t s of (t', s') \<Rightarrow> steps w k t' s')"

fun returned :: "('v, 'r) coro \<Rightarrow> bool" where
  "returned (Returned r) = True"
| "returned t = False"

section \<open>\<^verbatim>\<open>Router.aclose\<close> and the context manager\<close>

text \<open>
  \<^verbatim>\<open>await asyncio.gather(*[conn.aclose() for conn in self.connections.values()])\<close>.

  The list comprehension calls \<^verbatim>\<open>aclose()\<close> on every value of the pool, in insertion
  order; each call makes a coroutine object. \<^verbatim>\<open>asyncio.gather\<close> wraps each in a task,
  which schedules the first step of the task with \<^verbatim>\<open>call_soon\<close>, and attaches a
  done-callback to it. It is called without \<^verbatim>\<open>return_exceptions=True\<close>. The coroutine
  that awaits the result is suspended until the future of \<open>gather\<close> is done.

  The event loop keeps its ready handles in a queue, runs the handle at the front, and
  \<^verbatim>\<open>call_soon\<close> puts a handle at the back. Two kinds of handle occur here:
  \<^item> \<open>Step c d r\<close>, the next step of the task that closes connection \<open>c\<close>. With \<open>d = 0\<close>
    the coroutine runs to its end, returning (\<open>r = None\<close>) or raising \<open>e\<close> (\<open>r = Some e\<close>);
    the task is then done and its done-callback is put at the back of the queue. With
    \<open>d > 0\<close> the coroutine runs to its next suspension, gives control back to the loop,
    and its next step, with \<open>d - 1\<close> suspensions left, is put at the back of the queue.
  \<^item> \<open>Done c r\<close>, the done-callback of \<open>gather\<close> for that task. When the task raised and the
    future of \<open>gather\<close> is not done yet, the callback sets this exception on the future,
    which puts the wake-up of the awaiting coroutine at the back of the queue. When the
    task returned, the callback counts it, and the callback of the last task sets the
    result; by then the queue holds nothing else.

  A child is a connection, the number of suspensions its close still has before it ends,
  and how it ends.
\<close>

type_synonym child = "conn \<times> nat \<times> error option"

datatype handle = Step conn nat "error option" | Done conn "error option"

text \<open>What running a handle puts at the back of the queue, and what it adds to the events.\<close>

fun follows :: "handle \<Rightarrow> handle list" where
  "follows (Step c d r) = (if d = 0 then [Done c r] else [Step c (d - 1) r])"
| "follows (Done c r) = []"

fun ending :: "handle \<Rightarrow> event list" where
  "ending (Step c d r) = (if d = 0 then [CloseFinished c r] else [])"
| "ending (Done c r) = []"

text \<open>The child that a handle leaves running: a step that does not end the close.\<close>

fun parked :: "handle \<Rightarrow> child list" where
  "parked (Step c d r) = (if d = 0 then [] else [(c, d - 1, r)])"
| "parked (Done c r) = []"

text \<open>
  Once the exception is set, the handles that are in the queue at that moment run before
  the wake-up of the awaiting coroutine, each once; what they put into the queue comes
  after the wake-up. A done-callback among them finds the future done and does nothing.
  The result is the events at the wake-up and the closes still running then.
\<close>

definition drain :: "handle list \<Rightarrow> event list \<Rightarrow> event list \<times> child list" where
  "drain q h = (h @ concat (map ending q), concat (map parked q))"

fun weight :: "handle \<Rightarrow> nat" where
  "weight (Step c d r) = d + 2"
| "weight (Done c r) = 1"

text \<open>
  The loop from the moment the awaiting coroutine is suspended to the moment it is woken:
  the outcome of \<open>gather\<close> (\<open>None\<close> for the list of results, \<open>Some e\<close> for the exception
  \<open>e\<close>), the events, and the closes still running. An empty queue means that every task
  is done and counted.
\<close>

function run_loop :: "handle list \<Rightarrow> event list \<Rightarrow> error option \<times> event list \<times> child list" where
  "run_loop [] h = (None, h, [])"
| "run_loop (Done c r # q) h =
     (case r of
        Some e \<Rightarrow> (case drain q h of (h', running) \<Rightarrow> (Some e, h', running))
      | None \<Rightarrow> run_loop q h)"
| "run_loop (Step c d r # q) h =
     run_loop (q @ follows (Step c d r)) (h @ ending (Step c d r))"
  by pat_completeness auto
termination
  by (relation "measure (\<lambda>(q, h). sum_list (map weight q))") auto

definition stepping :: "child \<Rightarrow> handle" where
  "stepping k = (case k of (c, d, r) \<Rightarrow> Step c d r)"

text \<open>
  With no child, \<open>gather\<close> returns a future that is already done, and the \<^verbatim>\<open>await\<close> does
  not suspend.
\<close>

definition gather :: "child list \<Rightarrow> event list \<Rightarrow> error option \<times> event list \<times> child list" where
  "gather kids h = run_loop (map stepping kids) h"


fun waiting :: "handle \<Rightarrow> (conn \<times> error option) list" where
  "waiting (Step c d r) = [(c, r)]"
| "waiting (Done c r) = []"

fun noticed :: "handle \<Rightarrow> error option list" where
  "noticed (Done c r) = [r]"
| "noticed (Step c d r) = []"

fun ended :: "handle \<Rightarrow> (conn \<times> error option) list" where
  "ended (Step c d r) = (if d = 0 then [(c, r)] else [])"
| "ended (Done c r) = []"

text \<open>What is seen of a child from outside: the connection and how its close ends.\<close>

definition outcome_of :: "child \<Rightarrow> conn \<times> error option" where
  "outcome_of k = (fst k, snd (snd k))"

text \<open>
  \<^verbatim>\<open>aclose\<close> returns \<open>None\<close> when \<open>gather\<close> returned and \<open>Some e\<close> when it raised \<open>e\<close>,
  the Router, and the closes that are still running at that moment.
\<close>

definition aclose ::
  "('v, 'r) peer \<Rightarrow> ('cfg, 'm) router \<Rightarrow> error option \<times> ('cfg, 'm) router \<times> child list" where
  "aclose w s =
     (let conns = map snd (connections s);
          h = events s @ map CloseCalled conns;
          kids = map (\<lambda>c. (c, close_plan w h c)) conns
      in case gather kids h of (r, h', running) \<Rightarrow> (r, s\<lparr>events := h'\<rparr>, running))"

text \<open>The children that \<^verbatim>\<open>aclose\<close> hands to \<open>gather\<close>.\<close>

definition planned :: "('v, 'r) peer \<Rightarrow> ('cfg, 'm) router \<Rightarrow> child list" where
  "planned w s =
     (let conns = map snd (connections s);
          h = events s @ map CloseCalled conns
      in map (\<lambda>c. (c, close_plan w h c)) conns)"


text \<open>The children with at least \<open>n\<close> suspensions, after \<open>n\<close> of them.\<close>

definition late :: "nat \<Rightarrow> child list \<Rightarrow> child list" where
  "late n kids = concat (map (\<lambda>(c, d, r). if n \<le> d then [(c, d - n, r)] else []) kids)"


text \<open>\<^verbatim>\<open>__aenter__\<close> returns \<^verbatim>\<open>self\<close>.\<close>

definition aenter :: "('cfg, 'm) router \<Rightarrow> ('cfg, 'm) router" where
  "aenter s = s"

text \<open>
  \<^verbatim>\<open>__aexit__(self, exc_type, exc, tb)\<close>: the three arguments are \<^verbatim>\<open>None\<close> when the block
  ended normally and describe the exception otherwise; here they are one \<open>error option\<close>.
  The method returns \<^verbatim>\<open>None\<close>, so an exception of the block is not suppressed.
\<close>

definition aexit ::
  "('v, 'r) peer \<Rightarrow> error option \<Rightarrow> ('cfg, 'm) router
     \<Rightarrow> error option \<times> ('cfg, 'm) router \<times> child list" where
  "aexit w exc s = aclose w s"

text \<open>
  \<^verbatim>\<open>async with router as r: body\<close>. An exception raised by \<^verbatim>\<open>__aexit__\<close> replaces the
  one of the block; otherwise the outcome of the block is the outcome of the statement.
\<close>

definition async_with ::
  "('v, 'r) peer \<Rightarrow> (('cfg, 'm) router \<Rightarrow> (error + 'a) \<times> ('cfg, 'm) router) \<Rightarrow> ('cfg, 'm) router
     \<Rightarrow> (error + 'a) \<times> ('cfg, 'm) router \<times> child list" where
  "async_with w body s =
     (case body (aenter s) of
        (res, s1) \<Rightarrow>
          (case aexit w (case res of Inl e \<Rightarrow> Some e | Inr v \<Rightarrow> None) s1 of
             (Some e, s2, running) \<Rightarrow> (Inl e, s2, running)
           | (None, s2, running) \<Rightarrow> (res, s2, running)))"

section \<open>\<^verbatim>\<open>Router.__init__\<close>\<close>

text \<open>
  The \<^verbatim>\<open>config\<close> argument is a dict, a \<^verbatim>\<open>Path\<close>, or anything else. Of a dict the
  constructor reads the key \<^verbatim>\<open>"mcpServers"\<close> only: it is missing (\<open>None\<close>), a mapping
  from server names to raw entries, or a value without \<^verbatim>\<open>.items()\<close>. A JSON file holds
  an object or some other JSON value.
\<close>

datatype 'raw servers_value = ServerMap "(string \<times> 'raw) list" | NotAMap

datatype 'raw json_doc = JObject "'raw servers_value option" | JOther

datatype 'raw config_arg = CDict "'raw servers_value option" | CPath string | COther

text \<open>
  \<^verbatim>\<open>data_path\<close> is the string from the environment or the \<^verbatim>\<open>Path\<close> default. A
  \<^verbatim>\<open>Path\<close> is always truthy, a string is truthy when it is not empty.
\<close>

datatype pathlike = PStr string | PPath string

fun path_text :: "pathlike \<Rightarrow> string" where
  "path_text (PStr p) = p"
| "path_text (PPath p) = p"

fun truthy_path :: "pathlike \<Rightarrow> bool" where
  "truthy_path (PStr p) = (p \<noteq> [])"
| "truthy_path (PPath p) = True"

text \<open>
  What the constructor finds on the machine it runs on: the file system, the parser of
  \<^verbatim>\<open>json.load\<close>, the validation of \<^verbatim>\<open>ServerConfig(**config_data)\<close>, the environment as
  \<^verbatim>\<open>os.getenv\<close> sees it after \<^verbatim>\<open>load_dotenv()\<close>, the directory \<^verbatim>\<open>PROJECT_ROOT\<close>, and the
  three operations of \<^verbatim>\<open>ToolMatcher\<close>.
\<close>

record ('raw, 'cfg, 'm) host =
  path_exists :: "string \<Rightarrow> bool"
  read_json :: "string \<Rightarrow> error + 'raw json_doc"
  parse_server_config :: "'raw \<Rightarrow> error + 'cfg"
  getenv :: "string \<Rightarrow> string option"
  project_root :: string
  new_matcher :: "string \<Rightarrow> nat \<Rightarrow> nat \<Rightarrow> nat \<Rightarrow> error + 'm"
  setup_openai_client :: "'m \<Rightarrow> string \<Rightarrow> string \<Rightarrow> error + 'm"
  load_data :: "'m \<Rightarrow> pathlike \<Rightarrow> error + 'm"

text \<open>Lines 42 to 52. Each phase returns the events it caused and its outcome.\<close>

definition load_config ::
  "('raw, 'cfg, 'm) host \<Rightarrow> 'raw config_arg \<Rightarrow> event list \<times> (error + 'raw json_doc)" where
  "load_config h cfg =
     (case cfg of
        CDict d \<Rightarrow> ([], Inr (JObject d))
      | CPath p \<Rightarrow>
          if path_exists h p then ([ConfigProbed p, ConfigRead p], read_json h p)
          else ([ConfigProbed p], Inr (JObject (Some (ServerMap []))))
      | COther \<Rightarrow>
          ([], Inl (ValueError ''Config must be a dictionary or a Path to a JSON file.'')))"

text \<open>Line 55: \<^verbatim>\<open>self.config.get("mcpServers", {}).items()\<close>.\<close>

definition mcp_servers_items :: "'raw json_doc \<Rightarrow> error + (string \<times> 'raw) list" where
  "mcp_servers_items doc =
     (case doc of
        JOther \<Rightarrow> Inl AttributeError
      | JObject None \<Rightarrow> Inr []
      | JObject (Some NotAMap) \<Rightarrow> Inl AttributeError
      | JObject (Some (ServerMap entries)) \<Rightarrow> Inr entries)"

text \<open>
  Lines 55 and 56: the loop that fills \<^verbatim>\<open>self.servers\<close>. It stops at the first entry
  that \<^verbatim>\<open>ServerConfig\<close> rejects.
\<close>

fun parse_servers ::
  "('raw, 'cfg, 'm) host \<Rightarrow> (string \<times> 'raw) list \<Rightarrow> (string \<times> 'cfg server) list
     \<Rightarrow> event list \<times> (error + (string \<times> 'cfg server) list)" where
  "parse_servers h [] acc = ([], Inr acc)"
| "parse_servers h ((n, config_data) # entries) acc =
     (case parse_server_config h config_data of
        Inl e \<Rightarrow> ([], Inl e)
      | Inr c \<Rightarrow>
          (case parse_servers h entries (AList.update n \<lparr>name = n, config = c\<rparr> acc) of
             (evs, r) \<Rightarrow> (ServerParsed n # evs, r)))"

definition default_base_url :: string where
  "default_base_url = ''https://dashscope.aliyuncs.com/compatible-mode/v1''"

text \<open>
  \<^verbatim>\<open>PROJECT_ROOT / "config" / "mcp_arg.json"\<close>. \<^verbatim>\<open>PROJECT_ROOT\<close> is
  \<^verbatim>\<open>Path(__file__).resolve().parents[2]\<close>, an absolute path: \<open>/\<close> itself, or a path that
  does not end in \<open>/\<close>. Joining a relative part puts one separator between the two,
  and none after the root \<open>/\<close>.
\<close>

definition path_join :: "string \<Rightarrow> string \<Rightarrow> string" where
  "path_join dir part =
     (if dir = [] then part
      else if last dir = CHR ''/'' then dir @ part
      else dir @ ''/'' @ part)"

definition default_data_path :: "('raw, 'cfg, 'm) host \<Rightarrow> pathlike" where
  "default_data_path h =
     PPath (path_join (path_join (project_root h) ''config'') ''mcp_arg.json'')"

text \<open>Line 72: \<^verbatim>\<open>os.getenv("MCP_DATA_PATH", default_data_path)\<close>.\<close>

definition data_path_of :: "('raw, 'cfg, 'm) host \<Rightarrow> pathlike" where
  "data_path_of h =
     (case getenv h ''MCP_DATA_PATH'' of None \<Rightarrow> default_data_path h | Some p \<Rightarrow> PStr p)"

definition data_path_message :: "pathlike \<Rightarrow> string" where
  "data_path_message data_path =
     ''MCP_DATA_PATH not set or file not found at: '' @ path_text data_path"

definition env_reads :: "event list" where
  "env_reads =
     [EnvRead ''DASHSCOPE_BASE_URL'', EnvRead ''DASHSCOPE_API_KEY'', EnvRead ''MCP_DATA_PATH'']"

text \<open>
  Lines 58 to 80: \<^verbatim>\<open>load_dotenv()\<close>, the matcher, the three environment variables, the
  two checks and the two calls that prepare the matcher. In
  \<^verbatim>\<open>not data_path or not os.path.exists(data_path)\<close> the file system is asked only when
  \<^verbatim>\<open>data_path\<close> is truthy.
\<close>

definition start_matcher :: "('raw, 'cfg, 'm) host \<Rightarrow> event list \<times> (error + 'm)" where
  "start_matcher h =
     (case new_matcher h ''text-embedding-v4'' 1024 5 3 of
        Inl e \<Rightarrow> ([DotenvLoaded], Inl e)
      | Inr m \<Rightarrow>
          (let base_url =
                 (case getenv h ''DASHSCOPE_BASE_URL'' of None \<Rightarrow> default_base_url | Some u \<Rightarrow> u);
               api_key = getenv h ''DASHSCOPE_API_KEY'';
               data_path = data_path_of h;
               evs = [DotenvLoaded, MatcherCreated] @ env_reads
           in case api_key of
                None \<Rightarrow> (evs, Inl (ValueError ''DASHSCOPE_API_KEY environment variable not set.''))
              | Some key \<Rightarrow>
                  if key = []
                  then (evs, Inl (ValueError ''DASHSCOPE_API_KEY environment variable not set.''))
                  else if \<not> truthy_path data_path
                  then (evs, Inl (ValueError (data_path_message data_path)))
                  else if \<not> path_exists h (path_text data_path)
                  then (evs @ [DataPathProbed (path_text data_path)],
                        Inl (ValueError (data_path_message data_path)))
                  else
                    (case setup_openai_client h m base_url key of
                       Inl e \<Rightarrow> (evs @ [DataPathProbed (path_text data_path)], Inl e)
                     | Inr m1 \<Rightarrow>
                         (case load_data h m1 data_path of
                            Inl e \<Rightarrow>
                              (evs @ [DataPathProbed (path_text data_path), ClientSetUp], Inl e)
                          | Inr m2 \<Rightarrow>
                              (evs @ [DataPathProbed (path_text data_path), ClientSetUp,
                                      DataLoaded], Inr m2)))))"


text \<open>
  The constructor. It returns the events it caused and either the exception it raised or
  the new Router, whose event list starts with those events.
\<close>

definition Router_init ::
  "('raw, 'cfg, 'm) host \<Rightarrow> 'raw config_arg \<Rightarrow> event list \<times> (error + ('cfg, 'm) router)" where
  "Router_init h cfg =
     (case load_config h cfg of
        (evs0, Inl e) \<Rightarrow> (evs0, Inl e)
      | (evs0, Inr doc) \<Rightarrow>
          (case mcp_servers_items doc of
             Inl e \<Rightarrow> (evs0, Inl e)
           | Inr entries \<Rightarrow>
               (case parse_servers h entries [] of
                  (evs1, Inl e) \<Rightarrow> (evs0 @ evs1, Inl e)
                | (evs1, Inr svs) \<Rightarrow>
                    (case start_matcher h of
                       (evs2, Inl e) \<Rightarrow> (evs0 @ evs1 @ evs2, Inl e)
                     | (evs2, Inr m) \<Rightarrow>
                         (evs0 @ evs1 @ evs2,
                          Inr \<lparr>connections = [], servers = svs, matcher = m,
                               events = evs0 @ evs1 @ evs2, allocated = 0\<rparr>)))))"

text \<open>An event of the connection life cycle: an object constructed, connected, used or closed.\<close>

fun connection_event :: "event \<Rightarrow> bool" where
  "connection_event (Created c n) = True"
| "connection_event (ConnectCalled c) = True"
| "connection_event (ToolCalled c t) = True"
| "connection_event (CloseCalled c) = True"
| "connection_event (CloseFinished c r) = True"
| "connection_event e = False"

section \<open>Concrete worlds\<close>

text \<open>
  Small worlds on which the definitions can be run: a registry with the servers
  \<open>a\<close> and \<open>b\<close>, a Router that has not been used, and remote sides that behave in
  different ways.
\<close>

definition two_servers :: "(string \<times> unit server) list" where
  "two_servers = [(''a'', \<lparr>name = ''a'', config = ()\<rparr>), (''b'', \<lparr>name = ''b'', config = ()\<rparr>)]"

definition new_router :: "(unit, unit) router" where
  "new_router =
     \<lparr>connections = [], servers = two_servers, matcher = (), events = [], allocated = 0\<rparr>"

text \<open>Every connect succeeds, every tool call returns the tool name, every close ends at once.\<close>

definition steady_peer :: "(unit, string) peer" where
  "steady_peer =
     \<lparr>connect_result = (\<lambda>h c. None),
      tool_result = (\<lambda>h c t p. Inr t),
      close_plan = (\<lambda>h c. (0, None))\<rparr>"

text \<open>Every connect fails.\<close>

definition refusing_peer :: "(unit, string) peer" where
  "refusing_peer = steady_peer\<lparr>connect_result := (\<lambda>h c. Some (Foreign ''ConnectError''))\<rparr>"

text \<open>
  The close of connection 0 raises before its first suspension; the close of every other
  connection suspends three times and then ends normally.
\<close>

definition uneven_peer :: "(unit, string) peer" where
  "uneven_peer =
     steady_peer\<lparr>close_plan :=
       (\<lambda>h c. if c = 0 then (0, Some (Foreign ''CloseError'')) else (3, None))\<rparr>"

text \<open>The Router after one successful call to each of the two servers.\<close>

definition used_router :: "(unit, unit) router" where
  "used_router =
     snd (run_calls steady_peer [(''a'', ''t1'', None), (''b'', ''t1'', None)] new_router)"

text \<open>
  A machine with the credential in the environment, no \<^verbatim>\<open>MCP_DATA_PATH\<close>, the default
  index file in place and no other file.
\<close>

definition plain_host :: "(unit, unit, unit) host" where
  "plain_host =
     \<lparr>path_exists = (\<lambda>p. p = ''/srv/config/mcp_arg.json''),
      read_json = (\<lambda>p. Inl (Foreign ''FileNotFoundError'')),
      parse_server_config = (\<lambda>d. Inr ()),
      getenv = (\<lambda>v. if v = ''DASHSCOPE_API_KEY'' then Some ''sk-test'' else None),
      project_root = ''/srv'',
      new_matcher = (\<lambda>model dimensions top_servers top_tools. Inr ()),
      setup_openai_client = (\<lambda>m base_url api_key. Inr m),
      load_data = (\<lambda>m data_path. Inr m)\<rparr>"



text \<open>A configuration dict that declares the servers \<open>a\<close> and \<open>b\<close>.\<close>

definition two_entries :: "unit config_arg" where
  "two_entries = CDict (Some (ServerMap [(''a'', ()), (''b'', ())]))"

section \<open>Unknown servers\<close>

text \<open>
  C5. When the server name is neither in \<^verbatim>\<open>self.connections\<close> nor in \<^verbatim>\<open>self.servers\<close>,
  \<^verbatim>\<open>call_tool\<close> raises the \<^verbatim>\<open>ValueError\<close> of line 118 (the spec's UnknownServerError) and
  returns the Router exactly as it was: the pool has no new entry, no connection object
  has been constructed and no event (so no connect) has happened.
\<close>

theorem unknown_server_rejected:
  assumes "map_of (connections s) server_name = None"
    and "map_of (servers s) server_name = None"
  shows "call_tool w server_name tool_name params s =
           (Inl (ValueError (not_defined_message server_name)), s)"
  using assms by (simp add: call_tool_def)

theorem unknown_server_rejected_witness:
  "map_of (connections new_router) ''nope'' = None \<and>
   map_of (servers new_router) ''nope'' = None \<and>
   call_tool steady_peer ''nope'' ''x'' (Some []) new_router =
     (Inl (ValueError (not_defined_message ''nope'')), new_router)"
  using unknown_server_rejected [of new_router "''nope''" steady_peer "''x''" "Some []"]
  by (simp add: new_router_def two_servers_def)

section \<open>A failed connect\<close>

text \<open>
  C2. The server is registered and has no pooled connection, and the connect handshake
  of the new object raises \<open>e\<close>. Then \<^verbatim>\<open>call_tool\<close> raises \<open>e\<close>, and the pool and the
  registry are what they were before the call: line 124 is not reached. Nothing of the
  failure is kept: the next \<^verbatim>\<open>call_tool\<close> for the same server constructs another object,
  calls \<^verbatim>\<open>connect\<close> on it, and its outcome depends on that handshake alone.
\<close>

theorem failed_connect_not_pooled:
  assumes absent: "map_of (connections s) n = None"
    and known: "map_of (servers s) n = Some sv"
    and fails: "connect_result w (events (snd (begin_connect n s))) (allocated s) = Some e"
  shows "call_tool w n t p s = (Inl e, snd (begin_connect n s)) \<and>
         connections (snd (begin_connect n s)) = connections s \<and>
         servers (snd (begin_connect n s)) = servers s \<and>
         (case begin_connect n (snd (begin_connect n s)) of
            (c2, s2) \<Rightarrow>
              c2 = Suc (allocated s) \<and>
              since (snd (begin_connect n s)) s2 = [Created c2 n, ConnectCalled c2] \<and>
              call_tool w n t2 p2 (snd (begin_connect n s)) =
                (case connect_result w (events s2) c2 of
                   Some e2 \<Rightarrow> (Inl e2, s2)
                 | None \<Rightarrow> invoke w c2 t2 p2 (store n c2 s2)))"
  using assms by (simp add: call_tool_def begin_connect_def since_def Let_def)

theorem failed_connect_not_pooled_witness:
  "map_of (connections new_router) ''a'' = None \<and>
   map_of (servers new_router) ''a'' = Some \<lparr>name = ''a'', config = ()\<rparr> \<and>
   call_tool refusing_peer ''a'' ''t1'' None new_router =
     (Inl (Foreign ''ConnectError''), snd (begin_connect ''a'' new_router)) \<and>
   connections (snd (begin_connect ''a'' new_router)) = []"
  using failed_connect_not_pooled [of new_router "''a''" "\<lparr>name = ''a'', config = ()\<rparr>"
      refusing_peer "Foreign ''ConnectError''" "''t1''" None]
  by (simp add: new_router_def two_servers_def refusing_peer_def steady_peer_def begin_connect_def)

section \<open>The constructor\<close>

text \<open>
  C10. A \<^verbatim>\<open>config\<close> argument that is neither a dict nor a \<^verbatim>\<open>Path\<close> makes the constructor
  raise the \<^verbatim>\<open>ValueError\<close> of line 52 with no event before it: no registry entry has been
  built, no matcher created and no environment variable read.
\<close>

theorem bad_config_type_rejected_first:
  "Router_init h COther =
     ([], Inl (ValueError ''Config must be a dictionary or a Path to a JSON file.''))"
  by (simp add: Router_init_def load_config_def)

theorem bad_config_type_rejected_first_witness:
  "Router_init plain_host COther =
     ([], Inl (ValueError ''Config must be a dictionary or a Path to a JSON file.''))"
  using bad_config_type_rejected_first [of plain_host] by simp

lemma parse_servers_events:
  "parse_servers h entries acc = (evs, r) \<Longrightarrow> \<not> list_ex connection_event evs"
proof (induction entries arbitrary: acc evs r)
  case Nil
  then show ?case by simp
next
  case (Cons entry entries)
  obtain n d where entry: "entry = (n, d)" by (cases entry)
  show ?case
  proof (cases "parse_server_config h d")
    case (Inl e)
    with Cons.prems entry show ?thesis by simp
  next
    case (Inr c)
    obtain evs' r' where rest:
      "parse_servers h entries (AList.update n \<lparr>name = n, config = c\<rparr> acc) = (evs', r')"
      by (cases "parse_servers h entries (AList.update n \<lparr>name = n, config = c\<rparr> acc)")
    from Cons.IH [OF rest] have "\<not> list_ex connection_event evs'" .
    with Cons.prems entry Inr rest show ?thesis by auto
  qed
qed

lemma load_config_events:
  "load_config h cfg = (evs, r) \<Longrightarrow> \<not> list_ex connection_event evs"
  by (cases cfg) (auto simp: load_config_def split: if_splits)

lemma start_matcher_events:
  "start_matcher h = (evs, r) \<Longrightarrow> \<not> list_ex connection_event evs"
  by (auto simp: start_matcher_def env_reads_def Let_def split: sum.splits option.splits if_splits)

lemma Router_init_events: "\<not> list_ex connection_event (fst (Router_init h cfg))"
  by (auto simp: Router_init_def split: prod.splits sum.splits
      dest: parse_servers_events load_config_events start_matcher_events)

lemma Router_init_success:
  "Router_init h cfg = (evs, Inr r) \<Longrightarrow> connections r = [] \<and> allocated r = 0 \<and> events r = evs"
  by (auto simp: Router_init_def split: prod.splits sum.splits)

text \<open>
  C7. Whatever the configuration and whatever the machine, the constructor causes no event
  of the connection life cycle: no \<^verbatim>\<open>MCPConnection\<close> is constructed and \<^verbatim>\<open>connect\<close> is
  never called. When it returns a Router, the pool of that Router is empty and the number
  of connection objects constructed is zero.
\<close>

theorem construction_is_lazy:
  "\<not> list_ex connection_event (fst (Router_init h cfg)) \<and>
   (\<forall>r. snd (Router_init h cfg) = Inr r \<longrightarrow>
      connections r = [] \<and> allocated r = 0 \<and> \<not> list_ex connection_event (events r))"
proof -
  have "connections r = [] \<and> allocated r = 0 \<and> \<not> list_ex connection_event (events r)"
    if "snd (Router_init h cfg) = Inr r" for r
  proof -
    from that have "Router_init h cfg = (fst (Router_init h cfg), Inr r)"
      by (metis prod.collapse)
    from Router_init_success [OF this] Router_init_events [of h cfg] show ?thesis by simp
  qed
  with Router_init_events [of h cfg] show ?thesis by blast
qed

theorem construction_is_lazy_witness:
  "\<exists>r. snd (Router_init plain_host two_entries) = Inr r \<and>
       map fst (servers r) = [''a'', ''b''] \<and>
       connections r = [] \<and> allocated r = 0 \<and> \<not> list_ex connection_event (events r)"
proof -
  have ok: "snd (Router_init plain_host two_entries) =
      Inr \<lparr>connections = [], servers = two_servers, matcher = (),
           events = [ServerParsed ''a'', ServerParsed ''b'', DotenvLoaded, MatcherCreated] @ env_reads @
                    [DataPathProbed ''/srv/config/mcp_arg.json'', ClientSetUp, DataLoaded],
           allocated = 0\<rparr>"
    by (simp add: Router_init_def load_config_def two_entries_def mcp_servers_items_def
        start_matcher_def plain_host_def data_path_of_def default_data_path_def
        path_join_def two_servers_def Let_def)
  with construction_is_lazy [of plain_host two_entries] show ?thesis
    by (simp add: two_servers_def)
qed

section \<open>Shutdown\<close>

subsection \<open>What \<open>gather\<close> leaves behind\<close>

lemma close_calls_append: "close_calls (xs @ ys) = close_calls xs @ close_calls ys"
  by (simp add: close_calls_def List.map_filter_def)

lemma closes_finished_append:
  "closes_finished (xs @ ys) = closes_finished xs @ closes_finished ys"
  by (simp add: closes_finished_def List.map_filter_def)

lemma close_calls_called: "close_calls (map CloseCalled cs) = cs"
  by (induction cs) (simp_all add: close_calls_def List.map_filter_def)

lemma close_calls_finished: "close_calls (map (\<lambda>(c, e). CloseFinished c e) fin) = []"
  by (induction fin) (auto simp: close_calls_def List.map_filter_def)

lemma closes_finished_called: "closes_finished (map CloseCalled cs) = []"
  by (induction cs) (simp_all add: closes_finished_def List.map_filter_def)

lemma closes_finished_finished:
  "closes_finished (map (\<lambda>(c, e). CloseFinished c e) fin) = fin"
  by (induction fin) (auto simp: closes_finished_def List.map_filter_def)

lemma fst_outcome_of: "fst (outcome_of k) = fst k"
  by (simp add: outcome_of_def)


lemma ending_ended: "ending x = map (\<lambda>(c, e). CloseFinished c e) (ended x)"
  by (cases x) simp_all

lemma endings_ended:
  "concat (map ending q) = map (\<lambda>(c, e). CloseFinished c e) (concat (map ended q))"
  by (induction q) (simp_all add: ending_ended)

lemma ended_or_parked:
  "fst ` set (concat (map ended q)) \<union> fst ` set (concat (map parked q)) =
     fst ` set (concat (map waiting q))"
proof (induction q)
  case Nil
  then show ?case by simp
next
  case (Cons x q)
  have one: "fst ` set (waiting x) = fst ` set (ended x) \<union> fst ` set (parked x)"
    by (cases x) simp_all
  show ?case
    by (simp del: set_concat add: image_Un one Cons.IH [symmetric] Un_ac)
qed

lemma ended_waiting: "set (concat (map ended q)) \<subseteq> set (concat (map waiting q))"
proof (induction q)
  case Nil
  then show ?case by simp
next
  case (Cons x q)
  have "set (ended x) \<subseteq> set (waiting x)" by (cases x) auto
  with Cons show ?case by (simp del: set_concat add: le_supI1 le_supI2)
qed

lemma ended_parked_length:
  "length (concat (map ended q)) + length (concat (map parked q)) =
     length (concat (map waiting q))"
proof (induction q)
  case Nil
  then show ?case by simp
next
  case (Cons x q)
  have "length (ended x) + length (parked x) = length (waiting x)" by (cases x) simp_all
  with Cons show ?case by simp
qed

lemma run_loop_account:
  "run_loop q h = (r, h', run) \<Longrightarrow>
     \<exists>fin. h' = h @ map (\<lambda>(c, e). CloseFinished c e) fin \<and>
           fst ` set fin \<union> fst ` set run = fst ` set (concat (map waiting q)) \<and>
           set fin \<subseteq> set (concat (map waiting q)) \<and>
           length fin + length run = length (concat (map waiting q)) \<and>
           (r = None \<longrightarrow> run = [] \<and> snd ` set fin \<subseteq> {None} \<and>
                        set (concat (map noticed q)) \<subseteq> {None}) \<and>
           (\<forall>e. r = Some e \<longrightarrow>
                Some e \<in> snd ` set fin \<or> Some e \<in> set (concat (map noticed q)))"
proof (induction q h arbitrary: r h' run rule: run_loop.induct)
  case (1 h)
  then show ?case by simp
next
  case (2 c r0 q h)
  show ?case
  proof (cases r0)
    case None
    with "2.prems" have "run_loop q h = (r, h', run)" by simp
    from "2.IH" [OF None this] None show ?thesis by (simp del: set_concat)
  next
    case (Some e)
    with "2.prems" have res: "r = Some e" "h' = h @ concat (map ending q)"
      "run = concat (map parked q)"
      by (simp_all add: drain_def)
    let ?fin = "concat (map ended q)"
    have a: "h' = h @ map (\<lambda>(c, e). CloseFinished c e) ?fin"
      using res(2) by (simp add: endings_ended)
    have b: "fst ` set ?fin \<union> fst ` set run = fst ` set (concat (map waiting (Done c r0 # q)))"
      using res(3) ended_or_parked [of q] by simp
    have c: "set ?fin \<subseteq> set (concat (map waiting (Done c r0 # q)))"
      using ended_waiting [of q] by simp
    have d: "length ?fin + length run = length (concat (map waiting (Done c r0 # q)))"
      using res(3) ended_parked_length [of q] by simp
    have e: "Some e \<in> set (concat (map noticed (Done c r0 # q)))"
      using Some by simp
    from a b c d e res(1) show ?thesis by blast
  qed
next
  case (3 c d r0 q h)
  from "3.prems" have rec:
    "run_loop (q @ follows (Step c d r0)) (h @ ending (Step c d r0)) = (r, h', run)"
    by simp
  from "3.IH" [OF rec] obtain fin where fin:
    "h' = (h @ ending (Step c d r0)) @ map (\<lambda>(c, e). CloseFinished c e) fin"
    "fst ` set fin \<union> fst ` set run =
       fst ` set (concat (map waiting (q @ follows (Step c d r0))))"
    "set fin \<subseteq> set (concat (map waiting (q @ follows (Step c d r0))))"
    "length fin + length run = length (concat (map waiting (q @ follows (Step c d r0))))"
    "r = None \<longrightarrow> run = [] \<and> snd ` set fin \<subseteq> {None} \<and>
       set (concat (map noticed (q @ follows (Step c d r0)))) \<subseteq> {None}"
    "\<forall>e. r = Some e \<longrightarrow> Some e \<in> snd ` set fin \<or>
       Some e \<in> set (concat (map noticed (q @ follows (Step c d r0))))"
    by blast
  show ?case
  proof (cases "d = 0")
    case True
    let ?fin = "(c, r0) # fin"
    have a: "h' = h @ map (\<lambda>(c, e). CloseFinished c e) ?fin"
      using fin(1) True by simp
    have b: "fst ` set ?fin \<union> fst ` set run =
        fst ` set (concat (map waiting (Step c d r0 # q)))"
      using fin(2) True by simp
    have c: "set ?fin \<subseteq> set (concat (map waiting (Step c d r0 # q)))"
      using fin(3) True by (auto simp del: set_concat)
    have d: "length ?fin + length run = length (concat (map waiting (Step c d r0 # q)))"
      using fin(4) True by simp
    have e: "r = None \<longrightarrow> run = [] \<and> snd ` set ?fin \<subseteq> {None} \<and>
        set (concat (map noticed (Step c d r0 # q))) \<subseteq> {None}"
      using fin(5) True by (auto simp del: set_concat)
    have f: "\<forall>e. r = Some e \<longrightarrow> Some e \<in> snd ` set ?fin \<or>
        Some e \<in> set (concat (map noticed (Step c d r0 # q)))"
      using fin(6) True by (auto simp del: set_concat)
    from a b c d e f show ?thesis by blast
  next
    case False
    have a: "h' = h @ map (\<lambda>(c, e). CloseFinished c e) fin"
      using fin(1) False by simp
    have b: "fst ` set fin \<union> fst ` set run =
        fst ` set (concat (map waiting (Step c d r0 # q)))"
      using fin(2) False by (auto simp del: set_concat)
    have c: "set fin \<subseteq> set (concat (map waiting (Step c d r0 # q)))"
      using fin(3) False by (auto simp del: set_concat)
    have d: "length fin + length run = length (concat (map waiting (Step c d r0 # q)))"
      using fin(4) False by simp
    have e: "r = None \<longrightarrow> run = [] \<and> snd ` set fin \<subseteq> {None} \<and>
        set (concat (map noticed (Step c d r0 # q))) \<subseteq> {None}"
      using fin(5) False by (auto simp del: set_concat)
    have f: "\<forall>e. r = Some e \<longrightarrow> Some e \<in> snd ` set fin \<or>
        Some e \<in> set (concat (map noticed (Step c d r0 # q)))"
      using fin(6) False by (auto simp del: set_concat)
    from a b c d e f show ?thesis by blast
  qed
qed

lemma waiting_stepping: "concat (map waiting (map stepping kids)) = map outcome_of kids"
  by (induction kids) (auto simp: stepping_def outcome_of_def)

lemma noticed_stepping: "concat (map noticed (map stepping kids)) = []"
  by (induction kids) (auto simp: stepping_def)

lemma gather_account:
  assumes "gather kids h = (r, h', run)"
  shows "\<exists>fin. h' = h @ map (\<lambda>(c, e). CloseFinished c e) fin \<and>
           fst ` set fin \<union> fst ` set run = fst ` set kids \<and>
           set fin \<subseteq> outcome_of ` set kids \<and>
           length fin + length run = length kids \<and>
           (r = None \<longrightarrow> run = [] \<and> snd ` set fin \<subseteq> {None}) \<and>
           (\<forall>e. r = Some e \<longrightarrow> Some e \<in> snd ` set fin)"
proof -
  from assms have "run_loop (map stepping kids) h = (r, h', run)" by (simp add: gather_def)
  from run_loop_account [OF this] obtain fin where fin:
    "h' = h @ map (\<lambda>(c, e). CloseFinished c e) fin"
    "fst ` set fin \<union> fst ` set run = fst ` set (map outcome_of kids)"
    "set fin \<subseteq> set (map outcome_of kids)"
    "length fin + length run = length (map outcome_of kids)"
    "r = None \<longrightarrow> run = [] \<and> snd ` set fin \<subseteq> {None}"
    "\<forall>e. r = Some e \<longrightarrow> Some e \<in> snd ` set fin"
    unfolding waiting_stepping noticed_stepping by (auto simp del: set_concat)
  have "fst ` set (map outcome_of kids) = fst ` set kids"
    by (simp add: image_image fst_outcome_of)
  with fin show ?thesis by (intro exI [of _ fin]) simp
qed














subsection \<open>What \<^verbatim>\<open>aclose\<close> leaves behind\<close>


lemma aclose_gather:
  "aclose w s =
     (case gather (planned w s) (events s @ map CloseCalled (map snd (connections s))) of
        (r, h', running) \<Rightarrow> (r, s\<lparr>events := h'\<rparr>, running))"
  by (simp add: aclose_def planned_def Let_def)

lemma planned_conns: "map fst (planned w s) = map snd (connections s)"
  by (simp add: planned_def Let_def comp_def)

lemma aclose_account:
  assumes "aclose w s = (r, s', run)"
  shows "\<exists>fin. s' = s\<lparr>events := events s @ map CloseCalled (map snd (connections s)) @
                                 map (\<lambda>(c, e). CloseFinished c e) fin\<rparr> \<and>
               fst ` set fin \<union> fst ` set run = snd ` set (connections s) \<and>
               (r = None \<longrightarrow> run = [] \<and> snd ` set fin \<subseteq> {None}) \<and>
               (\<forall>e. r = Some e \<longrightarrow> Some e \<in> snd ` set fin) \<and>
               set fin \<subseteq> outcome_of ` set (planned w s) \<and>
               length fin + length run = length (connections s)"
proof -
  let ?h = "events s @ map CloseCalled (map snd (connections s))"
  obtain h' where g: "gather (planned w s) ?h = (r, h', run)" and s': "s' = s\<lparr>events := h'\<rparr>"
    using assms by (auto simp: aclose_gather split: prod.splits)
  from gather_account [OF g] obtain fin where fin:
    "h' = ?h @ map (\<lambda>(c, e). CloseFinished c e) fin"
    "fst ` set fin \<union> fst ` set run = fst ` set (planned w s)"
    "set fin \<subseteq> outcome_of ` set (planned w s)"
    "length fin + length run = length (planned w s)"
    "r = None \<longrightarrow> run = [] \<and> snd ` set fin \<subseteq> {None}"
    "\<forall>e. r = Some e \<longrightarrow> Some e \<in> snd ` set fin"
    by blast
  have conns: "fst ` set (planned w s) = snd ` set (connections s)"
    using planned_conns [of w s] by (metis set_map)
  have len: "length (planned w s) = length (connections s)"
    using planned_conns [of w s] by (metis length_map)
  have a: "s' = s\<lparr>events := events s @ map CloseCalled (map snd (connections s)) @
                                 map (\<lambda>(c, e). CloseFinished c e) fin\<rparr>"
    using s' fin(1) by simp
  have b: "fst ` set fin \<union> fst ` set run = snd ` set (connections s)"
    using fin(2) conns by simp
  have c: "length fin + length run = length (connections s)"
    using fin(4) len by simp
  from a b c fin(3,5,6) show ?thesis by blast
qed

lemma aclose_since:
  assumes "aclose w s = (r, s', run)"
  shows "close_calls (since s s') = map snd (connections s)"
    and "fst ` set (closes_finished (since s s')) \<union> fst ` set run = snd ` set (connections s)"
    and "r = None \<Longrightarrow> run = [] \<and> snd ` set (closes_finished (since s s')) \<subseteq> {None}"
    and "r = Some e \<Longrightarrow> Some e \<in> snd ` set (closes_finished (since s s'))"
    and "connections s' = connections s"
    and "servers s' = servers s"
    and "allocated s' = allocated s"
    and "set (closes_finished (since s s')) \<subseteq> outcome_of ` set (planned w s)"
    and "length (closes_finished (since s s')) + length run = length (connections s)"
proof -
  from aclose_account [OF assms] obtain fin where fin:
    "s' = s\<lparr>events := events s @ map CloseCalled (map snd (connections s)) @
                                 map (\<lambda>(c, e). CloseFinished c e) fin\<rparr>"
    "fst ` set fin \<union> fst ` set run = snd ` set (connections s)"
    "r = None \<longrightarrow> run = [] \<and> snd ` set fin \<subseteq> {None}"
    "\<forall>e. r = Some e \<longrightarrow> Some e \<in> snd ` set fin"
    "set fin \<subseteq> outcome_of ` set (planned w s)"
    "length fin + length run = length (connections s)"
    by blast
  have since: "since s s' = map CloseCalled (map snd (connections s)) @
      map (\<lambda>(c, e). CloseFinished c e) fin"
    using fin(1) by (simp add: since_def)
  have cf: "closes_finished (since s s') = fin"
    unfolding since closes_finished_append closes_finished_called closes_finished_finished
    by simp
  show "close_calls (since s s') = map snd (connections s)"
    unfolding since close_calls_append close_calls_called close_calls_finished by simp
  show "fst ` set (closes_finished (since s s')) \<union> fst ` set run = snd ` set (connections s)"
    using fin(2) cf by simp
  show "r = None \<Longrightarrow> run = [] \<and> snd ` set (closes_finished (since s s')) \<subseteq> {None}"
    using fin(3) cf by simp
  show "r = Some e \<Longrightarrow> Some e \<in> snd ` set (closes_finished (since s s'))"
    using fin(4) cf by simp
  show "connections s' = connections s" "servers s' = servers s" "allocated s' = allocated s"
    using fin(1) by simp_all
  show "set (closes_finished (since s s')) \<subseteq> outcome_of ` set (planned w s)"
    using fin(5) cf by simp
  show "length (closes_finished (since s s')) + length run = length (connections s)"
    using fin(6) cf by simp
qed




lemma used_router_eq:
  "used_router =
     \<lparr>connections = [(''a'', 0), (''b'', 1)], servers = two_servers, matcher = (),
      events = [Created 0 ''a'', ConnectCalled 0, ToolCalled 0 ''t1'',
                Created 1 ''b'', ConnectCalled 1, ToolCalled 1 ''t1''],
      allocated = 2\<rparr>"
  by (simp add: used_router_def new_router_def two_servers_def steady_peer_def
      call_tool_def begin_connect_def store_def invoke_def issue_call_def Let_def)


lemma planned_steady: "planned steady_peer used_router = [(0, 0, None), (1, 0, None)]"
  by (simp add: planned_def used_router_eq steady_peer_def Let_def)





subsection \<open>The pool after shutdown\<close>

lemma count_list_distinct:
  "distinct xs \<Longrightarrow> count_list xs c = (if c \<in> set xs then 1 else 0)"
  by (induction xs) auto

lemma call_tool_pooled:
  "map_of (connections s) n = Some c \<Longrightarrow> call_tool w n t p s = invoke w c t p s"
  by (simp add: call_tool_def)

lemma aclose_steady:
  "aclose steady_peer used_router =
     (None,
      used_router\<lparr>events := events used_router @
         [CloseCalled 0, CloseCalled 1, CloseFinished 0 None, CloseFinished 1 None]\<rparr>,
      [])"
  by (simp add: aclose_gather planned_steady gather_def stepping_def)
    (simp add: used_router_eq)

text \<open>
  C4, as stated, fails. After \<^verbatim>\<open>aclose\<close> on \<open>used_router\<close> the pool still holds both
  entries: \<^verbatim>\<open>aclose\<close> never assigns to \<^verbatim>\<open>self.connections\<close>. A later \<^verbatim>\<open>call_tool\<close> for
  server \<open>a\<close> constructs nothing: two objects have been constructed in all, and object 0
  is still the only one ever made for \<open>a\<close>.
\<close>

theorem shutdown_does_not_clear_pool:
  "connections (fst (snd (aclose steady_peer used_router))) = [(''a'', 0), (''b'', 1)] \<and>
   allocated (snd (call_tool steady_peer ''a'' ''t2'' None
                     (fst (snd (aclose steady_peer used_router))))) = 2 \<and>
   created_for ''a'' (events (snd (call_tool steady_peer ''a'' ''t2'' None
                     (fst (snd (aclose steady_peer used_router)))))) = [0]"
  unfolding aclose_steady
  by (simp add: used_router_eq call_tool_def invoke_def issue_call_def steady_peer_def
      created_for_def List.map_filter_def Let_def)

text \<open>
  C4, amended. After \<^verbatim>\<open>aclose\<close>, \<^verbatim>\<open>aclose()\<close> has been called by it exactly once on every
  connection that was in the pool, and on no other. The pool is left as it was, so a later
  \<^verbatim>\<open>call_tool\<close> for a server that was used before reuses the pooled (closed) connection:
  it is the tool call on that object, and no object is constructed.
\<close>

theorem shutdown_keeps_pool:
  assumes ok: "pool_ok s" and closed: "aclose w s = (r, s', run)"
  shows "count_list (close_calls (since s s')) c =
           (if c \<in> snd ` set (connections s) then 1 else 0) \<and>
         connections s' = connections s \<and>
         allocated s' = allocated s \<and>
         (\<forall>n k. map_of (connections s) n = Some k \<longrightarrow>
                call_tool w n t p s' = invoke w k t p s')"
proof -
  from ok have "distinct (map snd (connections s))" by (simp add: pool_ok_def)
  then have "count_list (close_calls (since s s')) c =
      (if c \<in> snd ` set (connections s) then 1 else 0)"
    using aclose_since(1) [OF closed] count_list_distinct [of "map snd (connections s)" c]
    by simp
  moreover have "call_tool w n t p s' = invoke w k t p s'"
    if "map_of (connections s) n = Some k" for n k
    using that aclose_since(5) [OF closed] by (simp add: call_tool_pooled)
  ultimately show ?thesis using aclose_since(5,7) [OF closed] by blast
qed

theorem shutdown_keeps_pool_witness:
  "pool_ok used_router \<and>
   count_list (close_calls (since used_router (fst (snd (aclose steady_peer used_router))))) 1 = 1 \<and>
   call_tool steady_peer ''b'' ''t2'' None (fst (snd (aclose steady_peer used_router))) =
     invoke steady_peer 1 ''t2'' None (fst (snd (aclose steady_peer used_router)))"
proof -
  have ok: "pool_ok used_router" by (simp add: pool_ok_def used_router_eq)
  have b: "map_of (connections used_router) ''b'' = Some 1" by (simp add: used_router_eq)
  have m: "(1::nat) \<in> snd ` set (connections used_router)" by (simp add: used_router_eq)
  note kept = shutdown_keeps_pool [OF ok aclose_steady, of 1 "''t2''" None]
  from kept m have c: "count_list (close_calls (since used_router
      (used_router\<lparr>events := events used_router @
         [CloseCalled 0, CloseCalled 1, CloseFinished 0 None, CloseFinished 1 None]\<rparr>))) 1 = 1"
    by simp
  from kept b have d: "call_tool steady_peer ''b'' ''t2'' None
      (used_router\<lparr>events := events used_router @
         [CloseCalled 0, CloseCalled 1, CloseFinished 0 None, CloseFinished 1 None]\<rparr>) =
    invoke steady_peer 1 ''t2'' None
      (used_router\<lparr>events := events used_router @
         [CloseCalled 0, CloseCalled 1, CloseFinished 0 None, CloseFinished 1 None]\<rparr>)"
    by blast
  from ok c d show ?thesis unfolding aclose_steady by simp
qed

subsection \<open>The context manager\<close>

text \<open>
  C8. \<^verbatim>\<open>__aexit__\<close> does what \<^verbatim>\<open>aclose\<close> does, whatever exception state it is given: it
  calls \<^verbatim>\<open>aclose()\<close> on every pooled connection. In \<^verbatim>\<open>async with\<close>, the Router and the
  running closes after the statement are those of \<^verbatim>\<open>aclose\<close> on the Router that the
  block left, whether the block returned or raised.
\<close>

theorem exit_always_shuts_down:
  "aexit w exc s = aclose w s \<and>
   close_calls (since s (fst (snd (aexit w exc s)))) = map snd (connections s) \<and>
   snd (async_with w body s) = snd (aclose w (snd (body s)))"
proof -
  obtain r s' run where a: "aclose w s = (r, s', run)" by (cases "aclose w s")
  have "close_calls (since s (fst (snd (aexit w exc s)))) = map snd (connections s)"
    using aclose_since(1) [OF a] a by (simp add: aexit_def)
  moreover have "snd (async_with w body s) = snd (aclose w (snd (body s)))"
    by (simp add: async_with_def aexit_def aenter_def split: prod.splits option.splits)
  ultimately show ?thesis by (simp add: aexit_def)
qed

theorem exit_always_shuts_down_witness:
  "aexit uneven_peer (Some (Foreign ''boom'')) used_router = aclose uneven_peer used_router \<and>
   close_calls (since used_router
       (fst (snd (aexit uneven_peer (Some (Foreign ''boom'')) used_router)))) = [0, 1]"
proof -
  have conns: "map snd (connections used_router) = [0, 1]" by (simp add: used_router_eq)
  from exit_always_shuts_down [of uneven_peer "Some (Foreign ''boom'')" used_router
      "\<lambda>s. (Inl (Foreign ''boom'') :: error + unit, s)"] conns
  show ?thesis by (simp add: aexit_def)
qed

section \<open>Reuse of a pooled connection\<close>

lemma created_for_append:
  "created_for n (xs @ ys) = created_for n xs @ created_for n ys"
  by (simp add: created_for_def List.map_filter_def)

lemma connect_calls_append:
  "connect_calls (xs @ ys) = connect_calls xs @ connect_calls ys"
  by (simp add: connect_calls_def List.map_filter_def)

lemma since_append: "events s' = events s @ ev \<Longrightarrow> since s s' = ev"
  by (simp add: since_def)

lemma call_tool_keeps_binding:
  assumes bound: "map_of (connections s) n = Some c"
    and call: "call_tool w m t p s = (r, s1)"
  shows "map_of (connections s1) n = Some c \<and>
         (\<exists>ev. events s1 = events s @ ev \<and> created_for n ev = [])"
proof (cases "map_of (connections s) m")
  case (Some k)
  with call have "s1 = issue_call k t s" by (simp add: call_tool_def invoke_def Let_def)
  with bound show ?thesis
    by (simp add: issue_call_def created_for_def List.map_filter_def)
next
  case None
  with bound have mn: "m \<noteq> n" by auto
  show ?thesis
  proof (cases "map_of (servers s) m")
    case None
    with \<open>map_of (connections s) m = None\<close> call have "s1 = s" by (simp add: call_tool_def)
    with bound show ?thesis by (simp add: created_for_def List.map_filter_def)
  next
    case (Some sv)
    let ?s1 = "snd (begin_connect m s)"
    show ?thesis
    proof (cases "connect_result w (events ?s1) (allocated s)")
      case (Some e)
      with \<open>map_of (connections s) m = None\<close> \<open>map_of (servers s) m = Some sv\<close> call
      have "s1 = ?s1" by (simp add: call_tool_def begin_connect_def Let_def)
      with bound mn show ?thesis
        by (simp add: begin_connect_def Let_def created_for_def List.map_filter_def)
    next
      case None
      with \<open>map_of (connections s) m = None\<close> \<open>map_of (servers s) m = Some sv\<close> call
      have "s1 = issue_call (allocated s) t (store m (allocated s) ?s1)"
        by (simp add: call_tool_def begin_connect_def invoke_def Let_def)
      with bound mn show ?thesis
        by (simp add: begin_connect_def store_def issue_call_def Let_def update_conv'
            created_for_def List.map_filter_def)
    qed
  qed
qed

lemma run_calls_keep_binding:
  "map_of (connections s) n = Some c \<Longrightarrow> run_calls w calls s = (rs, s') \<Longrightarrow>
     map_of (connections s') n = Some c \<and>
     (\<exists>ev. events s' = events s @ ev \<and> created_for n ev = [])"
proof (induction calls arbitrary: s rs s')
  case Nil
  then show ?case by (simp add: created_for_def List.map_filter_def)
next
  case (Cons call calls)
  obtain m t p where call: "call = (m, t, p)" by (cases call) auto
  obtain r s1 where first: "call_tool w m t p s = (r, s1)" by (cases "call_tool w m t p s")
  obtain rs1 s2 where rest: "run_calls w calls s1 = (rs1, s2)" by (cases "run_calls w calls s1")
  from Cons.prems(2) call first rest have s': "s' = s2" by simp
  from call_tool_keeps_binding [OF Cons.prems(1) first] obtain ev1 where one:
    "map_of (connections s1) n = Some c" "events s1 = events s @ ev1" "created_for n ev1 = []"
    by blast
  from Cons.IH [OF one(1) rest] obtain ev2 where two:
    "map_of (connections s2) n = Some c" "events s2 = events s1 @ ev2" "created_for n ev2 = []"
    by blast
  have "events s2 = events s @ (ev1 @ ev2)" using one(2) two(2) by simp
  moreover have "created_for n (ev1 @ ev2) = []"
    using one(3) two(3) by (simp add: created_for_append)
  ultimately show ?case using two(1) s' by blast
qed

text \<open>
  C1, as stated, fails. When every connect fails, two calls for server \<open>a\<close>, one after the
  other, construct two \<^verbatim>\<open>MCPConnection\<close> objects for \<open>a\<close>, objects 0 and 1: line 120
  runs before the handshake of line 122, in every call that finds no pooled connection.
  Neither object is stored.
\<close>

theorem failed_connects_create_more_objects:
  "created_for ''a''
     (events (snd (run_calls refusing_peer
        [(''a'', ''t1'', None), (''a'', ''t2'', None)] new_router))) = [0, 1] \<and>
   connections (snd (run_calls refusing_peer
        [(''a'', ''t1'', None), (''a'', ''t2'', None)] new_router)) = []"
  by (simp add: new_router_def two_servers_def refusing_peer_def steady_peer_def
      call_tool_def begin_connect_def created_for_def List.map_filter_def Let_def)

text \<open>
  C1, amended. Once the pool holds a connection for a server, it holds that same connection
  after any sequence of \<^verbatim>\<open>call_tool\<close> invocations, made one after the other, for any
  servers; during the sequence no \<^verbatim>\<open>MCPConnection\<close> is constructed for that server; and
  a further \<^verbatim>\<open>call_tool\<close> for it is the tool call on the pooled connection and nothing
  else, so \<^verbatim>\<open>connect\<close> is not called again. Hence at most one connection per server is
  ever stored in the pool; objects whose connect failed are constructed and dropped.
\<close>

theorem pooled_connection_reused:
  assumes "map_of (connections s) n = Some c" and "run_calls w calls s = (rs, s')"
  shows "map_of (connections s') n = Some c \<and>
         created_for n (since s s') = [] \<and>
         call_tool w n t p s' = invoke w c t p s'"
proof -
  from run_calls_keep_binding [OF assms] obtain ev where ev:
    "map_of (connections s') n = Some c" "events s' = events s @ ev" "created_for n ev = []"
    by blast
  from ev(2) have "since s s' = ev" by (rule since_append)
  with ev show ?thesis by (simp add: call_tool_def)
qed

theorem pooled_connection_reused_witness:
  "map_of (connections used_router) ''a'' = Some 0 \<and>
   map_of (connections (snd (run_calls steady_peer
       [(''b'', ''t2'', None), (''a'', ''t3'', None)] used_router))) ''a'' = Some 0 \<and>
   created_for ''a'' (since used_router (snd (run_calls steady_peer
       [(''b'', ''t2'', None), (''a'', ''t3'', None)] used_router))) = []"
proof -
  have a: "map_of (connections used_router) ''a'' = Some 0" by (simp add: used_router_eq)
  obtain rs s' where run: "run_calls steady_peer
       [(''b'', ''t2'', None), (''a'', ''t3'', None)] used_router = (rs, s')"
    by (cases "run_calls steady_peer [(''b'', ''t2'', None), (''a'', ''t3'', None)] used_router")
  from pooled_connection_reused [OF a run] a run show ?thesis by simp
qed

section \<open>Two concurrent calls\<close>

text \<open>
  A coroutine that runs alone does in three steps what \<open>call_tool\<close> does.
\<close>

lemma sequential_is_three_steps:
  "steps w (Suc (Suc (Suc 0))) (Start n t p) s =
     (Returned (fst (call_tool w n t p s)), snd (call_tool w n t p s))"
  by (simp add: call_tool_def invoke_def begin_connect_def Let_def
      split: option.splits prod.splits)

lemma update_twice: "AList.update k v (AList.update k v' al) = AList.update k v al"
  by (induction al) auto

lemma update_values: "x \<in> snd ` set (AList.update k v al) \<Longrightarrow> x = v \<or> x \<in> snd ` set al"
  by (induction al) (auto split: if_splits)

lemma pool_ok_bound: "pool_ok s \<Longrightarrow> c \<in> snd ` set (connections s) \<Longrightarrow> c < allocated s"
  by (auto simp: pool_ok_def list_all_iff)

lemma race_prefix:
  assumes absent: "map_of (connections s) n = None"
    and known: "map_of (servers s) n = Some sv"
    and connects: "\<forall>h c. connect_result w h c = None"
  shows "interleave w [True, False, True] (Start n tool1 p1, Start n tool2 p2, s) =
           (AtCall (allocated s) tool1 p1, AtConnect (Suc (allocated s)) n tool2 p2,
            s\<lparr>connections := AList.update n (allocated s) (connections s),
              allocated := Suc (Suc (allocated s)),
              events := events s @
                [Created (allocated s) n, ConnectCalled (allocated s),
                 Created (Suc (allocated s)) n, ConnectCalled (Suc (allocated s)),
                 ToolCalled (allocated s) tool1]\<rparr>)"
  using assms by (simp add: begin_connect_def store_def issue_call_def Let_def)

lemma race_whole:
  assumes absent: "map_of (connections s) n = None"
    and known: "map_of (servers s) n = Some sv"
    and connects: "\<forall>h c. connect_result w h c = None"
  shows "\<exists>r1 r2. interleave w [True, False, True, False, True, False]
             (Start n tool1 p1, Start n tool2 p2, s) =
           (Returned r1, Returned r2,
            s\<lparr>connections := AList.update n (Suc (allocated s)) (connections s),
              allocated := Suc (Suc (allocated s)),
              events := events s @
                [Created (allocated s) n, ConnectCalled (allocated s),
                 Created (Suc (allocated s)) n, ConnectCalled (Suc (allocated s)),
                 ToolCalled (allocated s) tool1, ToolCalled (Suc (allocated s)) tool2]\<rparr>)"
  using assms by (simp add: begin_connect_def store_def issue_call_def Let_def update_twice)

text \<open>
  C9. The server is registered, has no pooled connection, and its handshakes succeed. Two
  \<^verbatim>\<open>call_tool\<close> coroutines for it are started. There is a schedule in which both read
  the pool before either has stored a connection: each constructs its own
  \<^verbatim>\<open>MCPConnection\<close> and calls \<^verbatim>\<open>connect\<close> on it, so two objects exist for the one name.
  The first coroutine stores its object; then the second stores its own under the same
  key. At the end both coroutines have returned, the pool maps the name to the second
  object, and the first object is no longer in the pool.
\<close>

theorem concurrent_calls_connect_twice:
  assumes absent: "map_of (connections s) n = None"
    and known: "map_of (servers s) n = Some sv"
    and ok: "pool_ok s"
    and connects: "\<forall>h c. connect_result w h c = None"
  shows "\<exists>early late u1 u2 s3 t1 t2 s'.
           interleave w early (Start n tool1 p1, Start n tool2 p2, s) = (u1, u2, s3) \<and>
           map_of (connections s3) n = Some (allocated s) \<and>
           interleave w (early @ late) (Start n tool1 p1, Start n tool2 p2, s) = (t1, t2, s') \<and>
           returned t1 \<and> returned t2 \<and>
           created_for n (since s s') = [allocated s, Suc (allocated s)] \<and>
           connect_calls (since s s') = [allocated s, Suc (allocated s)] \<and>
           map_of (connections s') n = Some (Suc (allocated s)) \<and>
           allocated s \<notin> snd ` set (connections s')"
proof -
  let ?k = "(Start n tool1 p1, Start n tool2 p2, s)"
  let ?s3 = "s\<lparr>connections := AList.update n (allocated s) (connections s),
              allocated := Suc (Suc (allocated s)),
              events := events s @
                [Created (allocated s) n, ConnectCalled (allocated s),
                 Created (Suc (allocated s)) n, ConnectCalled (Suc (allocated s)),
                 ToolCalled (allocated s) tool1]\<rparr>"
  let ?s' = "s\<lparr>connections := AList.update n (Suc (allocated s)) (connections s),
              allocated := Suc (Suc (allocated s)),
              events := events s @
                [Created (allocated s) n, ConnectCalled (allocated s),
                 Created (Suc (allocated s)) n, ConnectCalled (Suc (allocated s)),
                 ToolCalled (allocated s) tool1, ToolCalled (Suc (allocated s)) tool2]\<rparr>"
  have early: "interleave w [True, False, True] ?k =
      (AtCall (allocated s) tool1 p1, AtConnect (Suc (allocated s)) n tool2 p2, ?s3)"
    by (rule race_prefix [OF absent known connects])
  from race_whole [OF absent known connects, of tool1 p1 tool2 p2] obtain r1 r2 where
    whole: "interleave w ([True, False, True] @ [False, True, False]) ?k =
      (Returned r1, Returned r2, ?s')"
    by auto
  have first: "map_of (connections ?s3) n = Some (allocated s)"
    by (simp add: update_conv')
  have second: "map_of (connections ?s') n = Some (Suc (allocated s))"
    by (simp add: update_conv')
  have made: "created_for n (since s ?s') = [allocated s, Suc (allocated s)]"
    by (simp add: since_def created_for_def List.map_filter_def)
  have called: "connect_calls (since s ?s') = [allocated s, Suc (allocated s)]"
    by (simp add: since_def connect_calls_def List.map_filter_def)
  have lost: "allocated s \<notin> snd ` set (connections ?s')"
  proof
    assume "allocated s \<in> snd ` set (connections ?s')"
    then have "allocated s \<in> snd ` set (AList.update n (Suc (allocated s)) (connections s))"
      by simp
    from update_values [OF this] have "allocated s \<in> snd ` set (connections s)" by simp
    from pool_ok_bound [OF ok this] show False by simp
  qed
  have ended: "returned (Returned r1)" "returned (Returned r2)"
    by simp_all
  from early first whole ended made called second lost show ?thesis by blast
qed

theorem concurrent_calls_connect_twice_witness:
  "map_of (connections new_router) ''a'' = None \<and>
   map_of (servers new_router) ''a'' = Some \<lparr>name = ''a'', config = ()\<rparr> \<and>
   pool_ok new_router \<and>
   (\<exists>early late u1 u2 s3 t1 t2 s'.
      interleave steady_peer early
        (Start ''a'' ''t1'' None, Start ''a'' ''t2'' None, new_router) = (u1, u2, s3) \<and>
      map_of (connections s3) ''a'' = Some 0 \<and>
      interleave steady_peer (early @ late)
        (Start ''a'' ''t1'' None, Start ''a'' ''t2'' None, new_router) = (t1, t2, s') \<and>
      returned t1 \<and> returned t2 \<and>
      created_for ''a'' (since new_router s') = [0, Suc 0] \<and>
      connect_calls (since new_router s') = [0, Suc 0] \<and>
      map_of (connections s') ''a'' = Some (Suc 0) \<and>
      0 \<notin> snd ` set (connections s'))"
proof -
  have absent: "map_of (connections new_router) ''a'' = None" by (simp add: new_router_def)
  have known: "map_of (servers new_router) ''a'' = Some \<lparr>name = ''a'', config = ()\<rparr>"
    by (simp add: new_router_def two_servers_def)
  have ok: "pool_ok new_router" by (simp add: pool_ok_def new_router_def)
  have connects: "\<forall>h c. connect_result steady_peer h c = None" by (simp add: steady_peer_def)
  have fresh: "allocated new_router = 0" by (simp add: new_router_def)
  from concurrent_calls_connect_twice [OF absent known ok connects, of "''t1''" None "''t2''" None]
  have "\<exists>early late u1 u2 s3 t1 t2 s'.
      interleave steady_peer early
        (Start ''a'' ''t1'' None, Start ''a'' ''t2'' None, new_router) = (u1, u2, s3) \<and>
      map_of (connections s3) ''a'' = Some 0 \<and>
      interleave steady_peer (early @ late)
        (Start ''a'' ''t1'' None, Start ''a'' ''t2'' None, new_router) = (t1, t2, s') \<and>
      returned t1 \<and> returned t2 \<and>
      created_for ''a'' (since new_router s') = [0, Suc 0] \<and>
      connect_calls (since new_router s') = [0, Suc 0] \<and>
      map_of (connections s') ''a'' = Some (Suc 0) \<and>
      0 \<notin> snd ` set (connections s')"
    unfolding fresh .
  with absent known ok show ?thesis by blast
qed

section \<open>Missing configuration file, missing runtime parameters\<close>













section \<open>The pool invariant\<close>

text \<open>
  \<open>pool_ok\<close> holds for every Router that the constructor returns, and \<open>call_tool\<close> and
  \<open>aclose\<close> keep it.
\<close>

lemma update_fresh_key: "map_of al k = None \<Longrightarrow> AList.update k v al = al @ [(k, v)]"
  by (induction al) (auto split: if_splits)

lemma pool_ok_call_tool:
  assumes ok: "pool_ok s" and call: "call_tool w n t p s = (r, s')"
  shows "pool_ok s'"
proof (cases "map_of (connections s) n")
  case (Some k)
  with call have "s' = issue_call k t s" by (simp add: call_tool_def invoke_def Let_def)
  with ok show ?thesis by (simp add: pool_ok_def issue_call_def)
next
  case None
  show ?thesis
  proof (cases "map_of (servers s) n")
    case None
    with \<open>map_of (connections s) n = None\<close> call have "s' = s" by (simp add: call_tool_def)
    with ok show ?thesis by simp
  next
    case (Some sv)
    let ?s1 = "snd (begin_connect n s)"
    have bound: "list_all (\<lambda>c. c < Suc (allocated s)) (map snd (connections s))"
      using ok by (auto simp: pool_ok_def list_all_iff)
    have fresh: "allocated s \<notin> snd ` set (connections s)"
      using ok by (auto simp: pool_ok_def list_all_iff)
    show ?thesis
    proof (cases "connect_result w (events ?s1) (allocated s)")
      case (Some e)
      with \<open>map_of (connections s) n = None\<close> \<open>map_of (servers s) n = Some sv\<close> call
      have "s' = ?s1" by (simp add: call_tool_def begin_connect_def Let_def)
      with ok bound show ?thesis by (simp add: pool_ok_def begin_connect_def Let_def)
    next
      case None
      with \<open>map_of (connections s) n = None\<close> \<open>map_of (servers s) n = Some sv\<close> call
      have "s' = issue_call (allocated s) t (store n (allocated s) ?s1)"
        by (simp add: call_tool_def begin_connect_def invoke_def Let_def)
      moreover have "n \<notin> fst ` set (connections s)"
        using \<open>map_of (connections s) n = None\<close> by (simp add: map_of_eq_None_iff)
      ultimately show ?thesis
        using ok bound fresh \<open>map_of (connections s) n = None\<close>
        by (simp add: pool_ok_def begin_connect_def store_def issue_call_def Let_def
            update_fresh_key)
    qed
  qed
qed

lemma pool_ok_aclose: "pool_ok s \<Longrightarrow> aclose w s = (r, s', run) \<Longrightarrow> pool_ok s'"
  using aclose_since(5,7) [of w s r s' run] by (simp add: pool_ok_def)

lemma pool_ok_Router_init: "Router_init h cfg = (evs, Inr s) \<Longrightarrow> pool_ok s"
  using Router_init_success [of h cfg evs s] by (simp add: pool_ok_def)

end
